theory Spec2Isabelle
  imports Complex_Main "HOL-Library.AList"
begin

section \<open>DiscordTrelloWatch: the watch registry, the refresh interval and the poll cycle\<close>

text \<open>
  A shallow embedding of \<^verbatim>\<open>main.py\<close>. The global \<^verbatim>\<open>bot_config\<close> is passed
  explicitly; every command handler returns the new configuration together with the
  text it responds with. The outside world (the Trello API, the clocks, the commands
  that arrive while the poll loop is suspended) is an explicit argument.

  Modelling decisions:
  \<^item> Python floats and \<^verbatim>\<open>timedelta\<close>s are real numbers of seconds (rounding is not
    modelled).
  \<^item> The dict \<^verbatim>\<open>channels\<close> is an association list in insertion order, as a Python
    dict iterates; a \<^verbatim>\<open>set\<close> is a list without duplicates, iterated in list order
    (Python leaves the order of a set open; the general theorems below hold for every
    order, and a concrete cycle below names the order it runs in).
  \<^item> Strings are byte strings (a Python string in UTF-8). \<^verbatim>\<open>str.lower\<close> is Python's
    own and lowers letters of every script: the handlers below take it as the argument
    \<open>str_lower\<close>, and \<open>ascii_lower\<close> is what it does on a string of ASCII characters.
  \<^item> Clock readings and intervals are taken inside the range of \<^verbatim>\<open>datetime\<close> and
    \<^verbatim>\<open>timedelta\<close>, where the date arithmetic of the header and of the log line does
    not raise; a request or a message that the transport fails to deliver is not
    modelled either.
\<close>

subsection \<open>Configuration\<close>

type_synonym board = "string \<times> string"
  \<comment> \<open>\<^verbatim>\<open>(board.get('name'), board_url)\<close>\<close>

record Config =
  refresh_interval :: real
  prev_refresh_interval :: real
  channels :: "(int \<times> board list) list"

definition initial_config :: Config where
  "initial_config = \<lparr>refresh_interval = 3600, prev_refresh_interval = 3600, channels = []\<rparr>"

subsection \<open>The pattern \<^verbatim>\<open>b/(.*)/\<close>\<close>

text \<open>
  \<^verbatim>\<open>re.search(r"b/(.*)/", s)\<close>: the leftmost \<^verbatim>\<open>b/\<close> after which a \<^verbatim>\<open>/\<close> follows on
  the same line. The group is greedy: it runs to the last \<^verbatim>\<open>/\<close> of that line
  (\<^verbatim>\<open>.\<close> matches every character but the newline).
\<close>

definition greedy_group :: "string \<Rightarrow> string option" where
  "greedy_group s =
     (let line = takeWhile (\<lambda>c. c \<noteq> CHR 0x0A) s in
      if CHR ''/'' \<in> set line
      then Some (rev (tl (dropWhile (\<lambda>c. c \<noteq> CHR ''/'') (rev line))))
      else None)"

fun re_search :: "string \<Rightarrow> string option" where
  "re_search [] = None"
| "re_search [c] = None"
| "re_search (c # d # s) =
     (if c = CHR ''b'' \<and> d = CHR ''/''
      then (case greedy_group s of Some g \<Rightarrow> Some g | None \<Rightarrow> re_search (d # s))
      else re_search (d # s))"

subsection \<open>\<^verbatim>\<open>str.lower\<close> on ASCII strings\<close>

text \<open>
  On a string of ASCII characters \<^verbatim>\<open>str.lower\<close> maps the letters \<open>A\<close> to \<open>Z\<close> to
  \<open>a\<close> to \<open>z\<close> and keeps every other character. It is used for the concrete URLs
  below, which are ASCII.
\<close>

definition ascii_lower_char :: "char \<Rightarrow> char" where
  "ascii_lower_char c =
     (let n = (of_char c :: nat) in if 65 \<le> n \<and> n \<le> 90 then char_of (n + 32) else c)"

definition ascii_lower :: "string \<Rightarrow> string" where
  "ascii_lower s = map ascii_lower_char s"

subsection \<open>Command handlers\<close>

datatype response =
    IncorrectBoardURL
  | AlreadyWatched int
  | LookupFailed string
  | Added string string
  | AllWatchesDeleted
  | IntervalSet real
  | CurrentlyWatching "(int \<times> string list) list"
  | WatchedInChannel "string list"
  | NoBoardsInChannel

datatype lookup = BoardInfo string | ClientResponseError string

definition reset_bot :: "Config \<Rightarrow> Config \<times> response" where
  "reset_bot cfg = (cfg\<lparr>refresh_interval := 3600, channels := []\<rparr>, AllWatchesDeleted)"

definition set_refresh_interval :: "real \<Rightarrow> Config \<Rightarrow> Config \<times> response" where
  "set_refresh_interval minutes cfg =
     (cfg\<lparr>refresh_interval := minutes * 60\<rparr>, IntervalSet minutes)"

text \<open>
  \<^verbatim>\<open>list_boards\<close> responds with the names of the watched boards, of every channel of
  the registry or of the calling channel.
\<close>

definition list_boards :: "int \<Rightarrow> bool \<Rightarrow> Config \<Rightarrow> response" where
  "list_boards channel_id all_boards cfg =
     (if all_boards
      then CurrentlyWatching (map (\<lambda>(ch, list_of_boards). (ch, map fst list_of_boards)) (channels cfg))
      else (case map_of (channels cfg) channel_id of
              Some (b # bs) \<Rightarrow> WatchedInChannel (map fst (b # bs))
            | _ \<Rightarrow> NoBoardsInChannel))"

text \<open>
  The two nested loops of \<^verbatim>\<open>watch_board\<close> over \<^verbatim>\<open>channels.items()\<close>: the first
  channel, in dict order, that holds a board with
  \<^verbatim>\<open>board[1].lower() == board_url.lower()\<close>. The argument \<open>str_lower\<close> is
  \<^verbatim>\<open>str.lower\<close>.
\<close>

fun watching_channel ::
  "(string \<Rightarrow> string) \<Rightarrow> (int \<times> board list) list \<Rightarrow> string \<Rightarrow> int option" where
  "watching_channel str_lower [] board_url = None"
| "watching_channel str_lower ((channel_id, list_of_boards) # rest) board_url =
     (if \<exists>b \<in> set list_of_boards. str_lower (snd b) = str_lower board_url
      then Some channel_id
      else watching_channel str_lower rest board_url)"

text \<open>
  \<^verbatim>\<open>if boards := channels.get(channel_id): boards.add(...) else: channels[channel_id] = {...}\<close>.
  An absent key and an empty set are both falsy.
\<close>

definition add_board :: "int \<Rightarrow> board \<Rightarrow> (int \<times> board list) list \<Rightarrow> (int \<times> board list) list" where
  "add_board channel_id b chs =
     (case map_of chs channel_id of
        Some (x # xs) \<Rightarrow> AList.update channel_id (List.insert b (x # xs)) chs
      | _ \<Rightarrow> AList.update channel_id [b] chs)"

text \<open>
  \<^verbatim>\<open>get_board\<close> is the Trello lookup: it either returns the board's name or raises
  \<^verbatim>\<open>ClientResponseError\<close>, whose traceback text the handler responds with.
\<close>

definition watch_board ::
  "(string \<Rightarrow> string) \<Rightarrow> (string \<Rightarrow> lookup) \<Rightarrow> int \<Rightarrow> string \<Rightarrow> Config \<Rightarrow> Config \<times> response"
  where
  "watch_board str_lower get_board channel_id board_url cfg =
     (case re_search board_url of
        None \<Rightarrow> (cfg, IncorrectBoardURL)
      | Some board_id \<Rightarrow>
          (case watching_channel str_lower (channels cfg) board_url of
             Some ch \<Rightarrow> (cfg, AlreadyWatched ch)
           | None \<Rightarrow>
               (case get_board board_id of
                  ClientResponseError e \<Rightarrow> (cfg, LookupFailed e)
                | BoardInfo name \<Rightarrow>
                    (cfg\<lparr>channels := add_board channel_id (name, board_url) (channels cfg)\<rparr>,
                     Added name board_url))))"

subsection \<open>The poll cycle\<close>

record action =
  date :: real
  shortLink :: string

text \<open>
  What the outside world does while one board is checked: the
  \<^verbatim>\<open>set_refresh_interval\<close> commands (their arguments, in minutes) handled while the
  request is awaited, whether \<^verbatim>\<open>resp.json()\<close> can parse the body (it raises on a body
  that is not JSON, whatever the status), the response's status and parsed body (each
  action with the
  reading of \<^verbatim>\<open>datetime.utcnow()\<close> taken when the loop examines it), the reading of
  \<^verbatim>\<open>datetime.now()\<close> that the header message formats, and the commands handled
  while the messages are sent and paced. A cycle of a registry that is not mutated in
  place while it is iterated is modelled; \<^verbatim>\<open>watch_board\<close> in the middle of a cycle
  is not.
\<close>

record poll =
  calls_during_request :: "real list"
  json_body :: bool
  status :: int
  board_actions :: "(real \<times> action) list"
  local_now :: real
  calls_during_sends :: "real list"

type_synonym world = "int \<times> board \<Rightarrow> poll"

datatype message = Header int real | CardLink int string
  \<comment> \<open>channel and content: the start of the window, or the card's URL\<close>

datatype error = AttributeError | ContentTypeError

record run =
  config :: Config
  drift_time :: int
  sent :: "message list"

datatype flow = Completed run | Broke run | Raised error

definition apply_calls :: "real list \<Rightarrow> Config \<Rightarrow> Config" where
  "apply_calls ms cfg = foldl (\<lambda>c m. fst (set_refresh_interval m c)) cfg ms"

definition card_url :: "string \<Rightarrow> string" where
  "card_url link = ''https://trello.com/c/'' @ link"

text \<open>The loop \<^verbatim>\<open>for action in board_actions\<close>, which fills the set \<^verbatim>\<open>cards\<close>.\<close>

fun collect_cards :: "real \<Rightarrow> (real \<times> action) list \<Rightarrow> string list \<Rightarrow> string list" where
  "collect_cards prev [] cards = cards"
| "collect_cards prev ((utcnow, a) # rest) cards =
     collect_cards prev rest
       (if utcnow - date a \<le> prev then List.insert (card_url (shortLink a)) cards else cards)"

text \<open>
  The messages one board sends: the header when \<^verbatim>\<open>cards\<close> is not empty, then one
  message per card.
\<close>

definition board_messages :: "int \<Rightarrow> real \<Rightarrow> real \<Rightarrow> string list \<Rightarrow> message list" where
  "board_messages channel now prev cards =
     (if cards \<noteq> [] then [Header channel (now - prev)] else []) @ map (CardLink channel) cards"

text \<open>
  The body of \<^verbatim>\<open>for board in list_of_boards\<close>. \<^verbatim>\<open>re.search(...).group(1)\<close> raises
  \<^verbatim>\<open>AttributeError\<close> on a URL without a match; \<^verbatim>\<open>await resp.json()\<close>, which comes
  before the test of the status, raises on a body that is not JSON; a status other than
  200 leaves the loop over the boards with \<^verbatim>\<open>break\<close>.
\<close>

definition check_board :: "world \<Rightarrow> int \<Rightarrow> board \<Rightarrow> run \<Rightarrow> flow" where
  "check_board world channel board r =
     (case re_search (snd board) of
        None \<Rightarrow> Raised AttributeError
      | Some board_id \<Rightarrow>
          (let p = world (channel, board);
               r1 = r\<lparr>config := apply_calls (calls_during_request p) (config r)\<rparr>
           in if \<not> json_body p then Raised ContentTypeError
              else if status p \<noteq> 200 then Broke r1
              else
                (let prev = prev_refresh_interval (config r1);
                     cards = collect_cards prev (board_actions p) []
                 in Completed
                      \<lparr>config = (if cards \<noteq> []
                                 then apply_calls (calls_during_sends p) (config r1)
                                 else config r1),
                       drift_time = (if cards \<noteq> [] then int (length cards) + 1
                                     else drift_time r1),
                       sent = sent r1 @ board_messages channel (local_now p) prev cards\<rparr>)))"

fun boards_loop :: "world \<Rightarrow> int \<Rightarrow> board list \<Rightarrow> run \<Rightarrow> error + run" where
  "boards_loop world channel [] r = Inr r"
| "boards_loop world channel (board # rest) r =
     (case check_board world channel board r of
        Raised e \<Rightarrow> Inl e
      | Broke r' \<Rightarrow> Inr r'
      | Completed r' \<Rightarrow> boards_loop world channel rest r')"

fun channels_loop :: "world \<Rightarrow> (int \<times> board list) list \<Rightarrow> run \<Rightarrow> error + run" where
  "channels_loop world [] r = Inr r"
| "channels_loop world ((channel, list_of_boards) # rest) r =
     (case boards_loop world channel list_of_boards r of
        Inl e \<Rightarrow> Inl e
      | Inr r' \<Rightarrow> channels_loop world rest r')"

text \<open>
  One iteration of \<^verbatim>\<open>while True\<close>, up to the final sleep: the run of the two loops,
  the commit of the interval, and the number handed to \<^verbatim>\<open>asyncio.sleep\<close>.
\<close>

definition commit :: "Config \<Rightarrow> Config" where
  "commit cfg = cfg\<lparr>prev_refresh_interval := refresh_interval cfg\<rparr>"

definition sleep_duration :: "Config \<Rightarrow> int \<Rightarrow> real" where
  "sleep_duration cfg drift = refresh_interval cfg - real_of_int drift"

definition cycle :: "world \<Rightarrow> Config \<Rightarrow> error + run \<times> real" where
  "cycle world cfg =
     (case channels_loop world (channels cfg) \<lparr>config = cfg, drift_time = 0, sent = []\<rparr> of
        Inl e \<Rightarrow> Inl e
      | Inr r \<Rightarrow>
          (let r' = r\<lparr>config := commit (config r)\<rparr>
           in Inr (r', sleep_duration (config r') (drift_time r'))))"

subsection \<open>Properties to state\<close>

text \<open>The registry invariant: no channel is mapped to an empty set.\<close>

fun registry_ok :: "(int \<times> board list) list \<Rightarrow> bool" where
  "registry_ok [] = True"
| "registry_ok ((channel, list_of_boards) # rest) = (list_of_boards \<noteq> [] \<and> registry_ok rest)"

text \<open>
  The configurations the program can be in between two cycles: the one \<^verbatim>\<open>__main__\<close>
  builds, and what the command handlers and a finished cycle make of a reachable one.
\<close>

inductive reachable :: "Config \<Rightarrow> bool" where
  start: "reachable initial_config"
| watch: "reachable cfg \<Longrightarrow>
     reachable (fst (watch_board str_lower get_board channel_id board_url cfg))"
| reset: "reachable cfg \<Longrightarrow> reachable (fst (reset_bot cfg))"
| interval: "reachable cfg \<Longrightarrow> reachable (fst (set_refresh_interval minutes cfg))"
| polled: "reachable cfg \<Longrightarrow> cycle world cfg = Inr (r, s) \<Longrightarrow> reachable (config r)"

text \<open>The same world with no \<^verbatim>\<open>set_refresh_interval\<close> arriving during the cycle.\<close>

definition without_calls :: "world \<Rightarrow> world" where
  "without_calls world k = (world k)\<lparr>calls_during_request := [], calls_during_sends := []\<rparr>"

text \<open>
  The \<^verbatim>\<open>set_refresh_interval\<close> calls a cycle handles, in the order in which they
  arrive: those of every board that is requested, and those during the sends of every
  board that has cards. After a status other than 200 the rest of the channel is not
  requested.
\<close>

definition board_calls :: "world \<Rightarrow> real \<Rightarrow> int \<Rightarrow> board \<Rightarrow> real list" where
  "board_calls world prev channel board =
     (let p = world (channel, board)
      in calls_during_request p @
         (if status p = 200 \<and> collect_cards prev (board_actions p) [] \<noteq> []
          then calls_during_sends p else []))"

fun boards_calls :: "world \<Rightarrow> real \<Rightarrow> int \<Rightarrow> board list \<Rightarrow> real list" where
  "boards_calls world prev channel [] = []"
| "boards_calls world prev channel (board # rest) =
     board_calls world prev channel board @
     (if status (world (channel, board)) = 200 then boards_calls world prev channel rest else [])"

fun channels_calls :: "world \<Rightarrow> real \<Rightarrow> (int \<times> board list) list \<Rightarrow> real list" where
  "channels_calls world prev [] = []"
| "channels_calls world prev ((channel, list_of_boards) # rest) =
     boards_calls world prev channel list_of_boards @ channels_calls world prev rest"

definition handled_calls :: "world \<Rightarrow> Config \<Rightarrow> real list" where
  "handled_calls world cfg = channels_calls world (prev_refresh_interval cfg) (channels cfg)"

text \<open>
  Two runs that differ at most in \<^verbatim>\<open>refresh_interval\<close>, and the same for the results
  of the loop body and of the loops.
\<close>

definition same_view :: "run \<Rightarrow> run \<Rightarrow> bool" where
  "same_view r r0 \<longleftrightarrow>
     sent r = sent r0 \<and> drift_time r = drift_time r0 \<and>
     prev_refresh_interval (config r) = prev_refresh_interval (config r0) \<and>
     channels (config r) = channels (config r0)"

fun same_flow :: "flow \<Rightarrow> flow \<Rightarrow> bool" where
  "same_flow (Completed r) (Completed r0) = same_view r r0"
| "same_flow (Broke r) (Broke r0) = same_view r r0"
| "same_flow (Raised e) (Raised e0) = (e = e0)"
| "same_flow _ _ = False"

fun same_result :: "error + run \<Rightarrow> error + run \<Rightarrow> bool" where
  "same_result (Inr r) (Inr r0) = same_view r r0"
| "same_result (Inl e) (Inl e0) = (e = e0)"
| "same_result _ _ = False"

text \<open>The messages a board sends when it is polled with the window \<open>prev\<close>.\<close>

definition polled_messages :: "world \<Rightarrow> real \<Rightarrow> int \<Rightarrow> board \<Rightarrow> message list" where
  "polled_messages world prev channel board =
     board_messages channel (local_now (world (channel, board))) prev
       (collect_cards prev (board_actions (world (channel, board))) [])"

text \<open>
  A board whose URL has a board id and whose request is answered with a JSON body and
  status 200.
\<close>

definition answers :: "world \<Rightarrow> int \<Rightarrow> board \<Rightarrow> bool" where
  "answers world channel b \<longleftrightarrow>
     re_search (snd b) \<noteq> None \<and> json_body (world (channel, b)) \<and> status (world (channel, b)) = 200"

fun is_card_link :: "message \<Rightarrow> bool" where
  "is_card_link (CardLink channel url) = True"
| "is_card_link (Header channel since) = False"

text \<open>What a cycle's result shows: the messages sent, the drift and the sleep.\<close>

definition notified :: "error + run \<times> real \<Rightarrow> message list option" where
  "notified res = (case res of Inl e \<Rightarrow> None | Inr (r, s) \<Rightarrow> Some (sent r))"

definition drifted :: "error + run \<times> real \<Rightarrow> int option" where
  "drifted res = (case res of Inl e \<Rightarrow> None | Inr (r, s) \<Rightarrow> Some (drift_time r))"

definition slept :: "error + run \<times> real \<Rightarrow> real option" where
  "slept res = (case res of Inl e \<Rightarrow> None | Inr (r, s) \<Rightarrow> Some s)"

subsection \<open>Concrete boards, lookups and worlds\<close>

definition alpha_url :: string where
  "alpha_url = ''https://trello.com/b/AAA/alpha''"

definition beta_url :: string where
  "beta_url = ''https://trello.com/b/BBB/beta''"

definition zeta_url :: string where
  "zeta_url = ''https://trello.com/b/ZZZ/zeta''"

definition alpha_url_slash :: string where
  "alpha_url_slash = ''https://trello.com/b/AAA/alpha/''"

definition alpha_url_upper :: string where
  "alpha_url_upper = ''HTTPS://TRELLO.COM/B/AAA/ALPHA''"

definition alpha_url_mixed :: string where
  "alpha_url_mixed = ''https://TRELLO.com/b/AAA/ALPHA''"

definition card_page_url :: string where
  "card_page_url = ''https://trello.com/c/AAA''"

definition board_a :: board where
  "board_a = (''Alpha'', alpha_url)"

definition board_b :: board where
  "board_b = (''Beta'', beta_url)"

text \<open>A Trello that knows the boards \<open>AAA\<close> and \<open>BBB\<close> and answers 404 for any other id.\<close>

definition trello_lookup :: "string \<Rightarrow> lookup" where
  "trello_lookup board_id =
     (if board_id = ''AAA'' then BoardInfo ''Alpha''
      else if board_id = ''BBB'' then BoardInfo ''Beta''
      else ClientResponseError ''404, message=Not Found'')"

definition one_board :: Config where
  "one_board = \<lparr>refresh_interval = 3600, prev_refresh_interval = 3600, channels = [(1, [board_a])]\<rparr>"

definition two_boards :: Config where
  "two_boards = \<lparr>refresh_interval = 3600, prev_refresh_interval = 3600,
     channels = [(1, [board_a, board_b])]\<rparr>"

definition one_minute :: Config where
  "one_minute = \<lparr>refresh_interval = 60, prev_refresh_interval = 60, channels = []\<rparr>"

definition one_second :: Config where
  "one_second = \<lparr>refresh_interval = 1, prev_refresh_interval = 1, channels = [(1, [board_a])]\<rparr>"

definition five_seconds :: Config where
  "five_seconds = \<lparr>refresh_interval = 5, prev_refresh_interval = 5, channels = [(1, [board_a])]\<rparr>"

text \<open>
  A response with two actions on the card \<open>c1\<close>, 10 and 20 seconds old when they are
  examined, and the worlds built from it: every board answers with it; the board
  \<open>board_a\<close> answers 500 instead; \<^verbatim>\<open>set_refresh_interval\<close> is called with 1/12 of a
  minute while the request is awaited.
\<close>

definition idle_poll :: poll where
  "idle_poll = \<lparr>calls_during_request = [], json_body = True, status = 200,
     board_actions = [], local_now = 1000,
     calls_during_sends = []\<rparr>"

definition idle_world :: world where
  "idle_world k = idle_poll"

definition two_updates :: poll where
  "two_updates = \<lparr>calls_during_request = [], json_body = True, status = 200,
     board_actions = [(5000, \<lparr>date = 4990, shortLink = ''c1''\<rparr>),
                      (5000, \<lparr>date = 4980, shortLink = ''c1''\<rparr>)],
     local_now = 5000, calls_during_sends = []\<rparr>"

definition steady_world :: world where
  "steady_world k = two_updates"

definition outage_world :: world where
  "outage_world k = (if snd k = board_a then two_updates\<lparr>status := 500\<rparr> else two_updates)"

definition hurried_world :: world where
  "hurried_world k = two_updates\<lparr>calls_during_request := [1 / 12]\<rparr>"

section \<open>Auxiliary facts\<close>

subsection \<open>The registry\<close>

lemma registry_ok_iff: "registry_ok chs \<longleftrightarrow> (\<forall>(c, bs) \<in> set chs. bs \<noteq> [])"
  by (induction chs rule: registry_ok.induct) auto

lemma registry_ok_update: "registry_ok chs \<Longrightarrow> bs \<noteq> [] \<Longrightarrow> registry_ok (AList.update k bs chs)"
  by (induction chs rule: registry_ok.induct) auto

lemma insert_nonempty: "List.insert b xs \<noteq> []"
  by (cases "b \<in> set xs") auto

lemma registry_ok_add_board: "registry_ok chs \<Longrightarrow> registry_ok (add_board k b chs)"
  by (auto simp: add_board_def insert_nonempty intro!: registry_ok_update split: option.splits list.splits)

lemma watch_board_cases:
  "watch_board str_lower g ch url cfg = (cfg', resp) \<Longrightarrow>
     (cfg' = cfg \<and> (resp = IncorrectBoardURL \<and> re_search url = None
        \<or> (\<exists>bid c. resp = AlreadyWatched c \<and> re_search url = Some bid \<and> watching_channel str_lower (channels cfg) url = Some c)
        \<or> (\<exists>bid e. resp = LookupFailed e \<and> re_search url = Some bid \<and> watching_channel str_lower (channels cfg) url = None \<and> g bid = ClientResponseError e)))
   \<or> (\<exists>bid name. resp = Added name url \<and> re_search url = Some bid \<and> watching_channel str_lower (channels cfg) url = None \<and> g bid = BoardInfo name
        \<and> cfg' = cfg\<lparr>channels := add_board ch (name, url) (channels cfg)\<rparr>)"
  by (auto simp: watch_board_def split: option.splits lookup.splits)

lemma watching_channel_Some:
  "watching_channel str_lower chs url = Some c \<Longrightarrow>
     \<exists>bs b. (c, bs) \<in> set chs \<and> b \<in> set bs \<and> str_lower (snd b) = str_lower url"
proof (induction chs)
  case Nil
  then show ?case by simp
next
  case (Cons p chs)
  obtain k bs where p: "p = (k, bs)" by (cases p)
  show ?case
  proof (cases "\<exists>b \<in> set bs. str_lower (snd b) = str_lower url")
    case True
    then obtain b where "b \<in> set bs" "str_lower (snd b) = str_lower url" by blast
    moreover from True Cons.prems p have "c = k" by simp
    ultimately show ?thesis using p by (intro exI [of _ bs] exI [of _ b]) simp
  next
    case False
    with Cons.prems p have "watching_channel str_lower chs url = Some c" by simp
    from Cons.IH [OF this] obtain bs' b' where
      "(c, bs') \<in> set chs" "b' \<in> set bs'" "str_lower (snd b') = str_lower url" by blast
    then show ?thesis by (intro exI [of _ bs'] exI [of _ b']) simp
  qed
qed

lemma watching_channel_None:
  "watching_channel str_lower chs url = None \<Longrightarrow> (c, bs) \<in> set chs \<Longrightarrow> b \<in> set bs \<Longrightarrow>
     str_lower (snd b) \<noteq> str_lower url"
proof (induction chs)
  case Nil
  then show ?case by simp
next
  case (Cons p chs)
  obtain k xs where p: "p = (k, xs)" by (cases p)
  from Cons.prems(1) p have no: "\<not> (\<exists>x \<in> set xs. str_lower (snd x) = str_lower url)"
    and rest: "watching_channel str_lower chs url = None"
    by (auto split: if_splits)
  from Cons.prems(2) p consider "bs = xs" | "(c, bs) \<in> set chs" by auto
  then show ?case
  proof cases
    case 1
    with no Cons.prems(3) show ?thesis by blast
  next
    case 2
    from Cons.IH [OF rest 2 Cons.prems(3)] show ?thesis .
  qed
qed

lemma watching_channel_found:
  "(c, bs) \<in> set chs \<Longrightarrow> b \<in> set bs \<Longrightarrow> str_lower (snd b) = str_lower url \<Longrightarrow>
     \<exists>c'. watching_channel str_lower chs url = Some c'"
  using watching_channel_None [of str_lower chs url c bs b] by (cases "watching_channel str_lower chs url") auto

subsection \<open>The cycle\<close>

lemma apply_calls_prev [simp]: "prev_refresh_interval (apply_calls ms cfg) = prev_refresh_interval cfg"
proof -
  have "prev_refresh_interval (foldl (\<lambda>c m. fst (set_refresh_interval m c)) cfg ms)
          = prev_refresh_interval cfg"
    by (induction ms arbitrary: cfg) (simp_all add: set_refresh_interval_def)
  then show ?thesis by (simp add: apply_calls_def)
qed

lemma apply_calls_channels [simp]: "channels (apply_calls ms cfg) = channels cfg"
proof -
  have "channels (foldl (\<lambda>c m. fst (set_refresh_interval m c)) cfg ms) = channels cfg"
    by (induction ms arbitrary: cfg) (simp_all add: set_refresh_interval_def)
  then show ?thesis by (simp add: apply_calls_def)
qed

lemma apply_calls_Nil [simp]: "apply_calls [] cfg = cfg"
  by (simp add: apply_calls_def)

lemma card_url_inj [simp]: "card_url l = card_url l' \<longleftrightarrow> l = l'"
  by (simp add: card_url_def)

lemma collect_cards_set:
  "set (collect_cards prev acts cards)
     = set cards \<union> {card_url (shortLink a) | t a. (t, a) \<in> set acts \<and> t - date a \<le> prev}"
  by (induction prev acts cards rule: collect_cards.induct) auto

lemma collect_cards_distinct:
  "distinct cards \<Longrightarrow> distinct (collect_cards prev acts cards)"
  by (induction prev acts cards rule: collect_cards.induct) auto

lemma check_board_Completed:
  assumes "check_board world channel board r = Completed r'"
  shows "status (world (channel, board)) = 200"
    and "re_search (snd board) \<noteq> None"
    and "sent r' = sent r @ board_messages channel (local_now (world (channel, board)))
            (prev_refresh_interval (config r))
            (collect_cards (prev_refresh_interval (config r))
               (board_actions (world (channel, board))) [])"
    and "prev_refresh_interval (config r') = prev_refresh_interval (config r)"
    and "channels (config r') = channels (config r)"
  using assms by (auto simp: check_board_def Let_def split: option.splits if_splits)

lemma check_board_Broke:
  assumes "check_board world channel board r = Broke r'"
  shows "status (world (channel, board)) \<noteq> 200"
    and "sent r' = sent r" and "drift_time r' = drift_time r"
    and "prev_refresh_interval (config r') = prev_refresh_interval (config r)"
    and "channels (config r') = channels (config r)"
  using assms by (auto simp: check_board_def Let_def split: option.splits if_splits)


lemma check_board_without_calls:
  assumes "same_view r r0"
  shows "same_flow (check_board world channel board r)
           (check_board (without_calls world) channel board r0)"
proof (cases "re_search (snd board)")
  case None
  then show ?thesis by (simp add: check_board_def)
next
  case (Some board_id)
  show ?thesis
  proof (cases "status (world (channel, board)) = 200")
    case True
    with Some assms show ?thesis
      by (simp add: check_board_def without_calls_def same_view_def Let_def)
  next
    case False
    with Some assms show ?thesis
      by (simp add: check_board_def without_calls_def same_view_def Let_def)
  qed
qed

lemma boards_loop_without_calls:
  "same_view r r0 \<Longrightarrow>
     same_result (boards_loop world channel bs r) (boards_loop (without_calls world) channel bs r0)"
proof (induction bs arbitrary: r r0)
  case Nil
  then show ?case by simp
next
  case (Cons b bs)
  from check_board_without_calls [OF Cons.prems, of world channel b]
  show ?case
    by (cases "check_board world channel b r";
        cases "check_board (without_calls world) channel b r0")
       (simp_all add: Cons.IH)
qed

lemma channels_loop_without_calls:
  "same_view r r0 \<Longrightarrow>
     same_result (channels_loop world chs r) (channels_loop (without_calls world) chs r0)"
proof (induction chs arbitrary: r r0)
  case Nil
  then show ?case by simp
next
  case (Cons p chs)
  obtain channel bs where p: "p = (channel, bs)" by (cases p)
  from boards_loop_without_calls [OF Cons.prems, of world channel bs]
  show ?case unfolding p
    by (cases "boards_loop world channel bs r";
        cases "boards_loop (without_calls world) channel bs r0")
       (simp_all add: Cons.IH)
qed

lemma cycle_without_calls:
  "map_sum id (\<lambda>(r, s). (sent r, drift_time r)) (cycle world cfg)
     = map_sum id (\<lambda>(r, s). (sent r, drift_time r)) (cycle (without_calls world) cfg)"
proof -
  let ?r = "\<lparr>config = cfg, drift_time = 0, sent = []\<rparr>"
  have "same_view ?r ?r" by (simp add: same_view_def)
  from channels_loop_without_calls [OF this, of world "channels cfg"]
  show ?thesis
    by (cases "channels_loop world (channels cfg) ?r";
        cases "channels_loop (without_calls world) (channels cfg) ?r")
       (simp_all add: cycle_def same_view_def Let_def)
qed

text \<open>The loops change neither the window nor the registry.\<close>

lemma boards_loop_keeps:
  "boards_loop world channel bs r = Inr r' \<Longrightarrow>
     prev_refresh_interval (config r') = prev_refresh_interval (config r) \<and>
     channels (config r') = channels (config r)"
proof (induction bs arbitrary: r)
  case Nil
  then show ?case by simp
next
  case (Cons b bs)
  show ?case
  proof (cases "check_board world channel b r")
    case (Completed r1)
    with Cons.prems have "boards_loop world channel bs r1 = Inr r'" by simp
    from Cons.IH [OF this] check_board_Completed(4,5) [OF Completed] show ?thesis by simp
  next
    case (Broke r1)
    with Cons.prems have "r' = r1" by simp
    with check_board_Broke(4,5) [OF Broke] show ?thesis by simp
  next
    case (Raised e)
    with Cons.prems show ?thesis by simp
  qed
qed

lemma channels_loop_keeps:
  "channels_loop world chs r = Inr r' \<Longrightarrow>
     prev_refresh_interval (config r') = prev_refresh_interval (config r) \<and>
     channels (config r') = channels (config r)"
proof (induction chs arbitrary: r)
  case Nil
  then show ?case by simp
next
  case (Cons p chs)
  obtain channel bs where p: "p = (channel, bs)" by (cases p)
  from Cons.prems p obtain r1 where 1: "boards_loop world channel bs r = Inr r1"
    and 2: "channels_loop world chs r1 = Inr r'"
    by (auto split: sum.splits)
  from Cons.IH [OF 2] boards_loop_keeps [OF 1] show ?case by simp
qed


lemma CardLink_polled_messages:
  "CardLink c u \<in> set (polled_messages world prev channel board) \<longleftrightarrow>
     c = channel \<and> (\<exists>t a. (t, a) \<in> set (board_actions (world (channel, board))) \<and>
        u = card_url (shortLink a) \<and> t - date a \<le> prev)"
  by (auto simp: polled_messages_def board_messages_def collect_cards_set)

lemma boards_loop_sound:
  "boards_loop world channel bs r = Inr r' \<Longrightarrow> m \<in> set (sent r') \<Longrightarrow>
     m \<in> set (sent r) \<or>
     (\<exists>b. b \<in> set bs \<and> m \<in> set (polled_messages world (prev_refresh_interval (config r)) channel b))"
proof (induction bs arbitrary: r)
  case Nil
  then show ?case by simp
next
  case (Cons b bs)
  show ?case
  proof (cases "check_board world channel b r")
    case (Completed r1)
    with Cons.prems have loop: "boards_loop world channel bs r1 = Inr r'" by simp
    note c = check_board_Completed [OF Completed]
    have s1: "sent r1 = sent r @ polled_messages world (prev_refresh_interval (config r)) channel b"
      using c(3) by (simp add: polled_messages_def)
    from Cons.IH [OF loop Cons.prems(2)] show ?thesis
    proof
      assume "m \<in> set (sent r1)"
      with s1 have "m \<in> set (sent r) \<or>
          m \<in> set (polled_messages world (prev_refresh_interval (config r)) channel b)" by simp
      then show ?thesis by (metis list.set_intros(1))
    next
      assume "\<exists>b. b \<in> set bs \<and> m \<in> set (polled_messages world (prev_refresh_interval (config r1)) channel b)"
      with c(4) show ?thesis by (metis list.set_intros(2))
    qed
  next
    case (Broke r1)
    with Cons.prems have "r' = r1" by simp
    with check_board_Broke(2) [OF Broke] Cons.prems(2) show ?thesis by simp
  next
    case (Raised e)
    with Cons.prems show ?thesis by simp
  qed
qed

lemma channels_loop_sound:
  "channels_loop world chs r = Inr r' \<Longrightarrow> m \<in> set (sent r') \<Longrightarrow>
     m \<in> set (sent r) \<or>
     (\<exists>channel bs b. (channel, bs) \<in> set chs \<and> b \<in> set bs \<and>
        m \<in> set (polled_messages world (prev_refresh_interval (config r)) channel b))"
proof (induction chs arbitrary: r)
  case Nil
  then show ?case by simp
next
  case (Cons p chs)
  obtain channel bs where p: "p = (channel, bs)" by (cases p)
  from Cons.prems p obtain r1 where 1: "boards_loop world channel bs r = Inr r1"
    and 2: "channels_loop world chs r1 = Inr r'"
    by (auto split: sum.splits)
  note k = boards_loop_keeps [OF 1]
  from Cons.IH [OF 2 Cons.prems(2)] show ?case
  proof
    assume "m \<in> set (sent r1)"
    from boards_loop_sound [OF 1 this] p show ?thesis by auto
  next
    assume "\<exists>channel bs b. (channel, bs) \<in> set chs \<and> b \<in> set bs \<and>
        m \<in> set (polled_messages world (prev_refresh_interval (config r1)) channel b)"
    with k show ?thesis by auto
  qed
qed

text \<open>When every board has an id and answers 200, no board is skipped.\<close>

lemma check_board_answers:
  "answers world channel b \<Longrightarrow> \<exists>r'. check_board world channel b r = Completed r'"
  by (auto simp: answers_def check_board_def Let_def)

lemma boards_loop_complete:
  "\<forall>b. b \<in> set bs \<longrightarrow> answers world channel b \<Longrightarrow>
     \<exists>r'. boards_loop world channel bs r = Inr r' \<and>
       set (sent r') = set (sent r) \<union>
         (\<Union>b \<in> set bs. set (polled_messages world (prev_refresh_interval (config r)) channel b))"
proof (induction bs arbitrary: r)
  case Nil
  then show ?case by simp
next
  case (Cons b bs)
  from Cons.prems have "answers world channel b" by (meson list.set_intros(1))
  from check_board_answers [OF this] obtain r1 where 1: "check_board world channel b r = Completed r1"
    by blast
  note c = check_board_Completed [OF 1]
  from Cons.prems have "\<forall>x. x \<in> set bs \<longrightarrow> answers world channel x"
    by (meson list.set_intros(2))
  from Cons.IH [OF this, of r1] obtain r' where 2: "boards_loop world channel bs r1 = Inr r'"
    and 3: "set (sent r') = set (sent r1) \<union>
         (\<Union>b \<in> set bs. set (polled_messages world (prev_refresh_interval (config r1)) channel b))"
    by blast
  from 1 2 have "boards_loop world channel (b # bs) r = Inr r'" by simp
  moreover have "sent r1 = sent r @ polled_messages world (prev_refresh_interval (config r)) channel b"
    using c(3) by (simp add: polled_messages_def)
  with 3 c(4) have "set (sent r') = set (sent r) \<union>
         (\<Union>b \<in> set (b # bs). set (polled_messages world (prev_refresh_interval (config r)) channel b))"
    by (simp add: Un_assoc)
  ultimately show ?case by blast
qed

lemma channels_loop_complete:
  "\<forall>channel bs b. (channel, bs) \<in> set chs \<longrightarrow> b \<in> set bs \<longrightarrow> answers world channel b \<Longrightarrow>
     \<exists>r'. channels_loop world chs r = Inr r' \<and>
       set (sent r') = set (sent r) \<union>
         (\<Union>(channel, bs) \<in> set chs. \<Union>b \<in> set bs.
             set (polled_messages world (prev_refresh_interval (config r)) channel b))"
proof (induction chs arbitrary: r)
  case Nil
  then show ?case by simp
next
  case (Cons p chs)
  obtain channel bs where p: "p = (channel, bs)" by (cases p)
  from Cons.prems p have "\<forall>b. b \<in> set bs \<longrightarrow> answers world channel b"
    by (meson list.set_intros(1))
  from boards_loop_complete [OF this, where r = r] obtain r1 where
    1: "boards_loop world channel bs r = Inr r1" and
    2: "set (sent r1) = set (sent r) \<union>
         (\<Union>b \<in> set bs. set (polled_messages world (prev_refresh_interval (config r)) channel b))"
    by blast
  note k = boards_loop_keeps [OF 1]
  from Cons.prems
  have "\<forall>channel bs b. (channel, bs) \<in> set chs \<longrightarrow> b \<in> set bs \<longrightarrow> answers world channel b"
    by (meson list.set_intros(2))
  from Cons.IH [OF this, where r = r1] obtain r' where 3: "channels_loop world chs r1 = Inr r'"
    and 4: "set (sent r') = set (sent r1) \<union>
         (\<Union>(channel, bs) \<in> set chs. \<Union>b \<in> set bs.
             set (polled_messages world (prev_refresh_interval (config r1)) channel b))"
    by blast
  from 1 3 p have "channels_loop world (p # chs) r = Inr r'" by simp
  moreover from 2 4 k p have "set (sent r') = set (sent r) \<union>
         (\<Union>(channel, bs) \<in> set (p # chs). \<Union>b \<in> set bs.
             set (polled_messages world (prev_refresh_interval (config r)) channel b))"
    by (simp add: Un_assoc)
  ultimately show ?case by blast
qed

subsection \<open>Facts about the cycle as a whole\<close>

lemma cycle_Inr:
  assumes "cycle world cfg = Inr (r, s)"
  shows "\<exists>r0. channels_loop world (channels cfg) \<lparr>config = cfg, drift_time = 0, sent = []\<rparr> = Inr r0
           \<and> r = r0\<lparr>config := commit (config r0)\<rparr>
           \<and> s = refresh_interval (config r0) - real_of_int (drift_time r0)"
  using assms by (auto simp: cycle_def Let_def sleep_duration_def commit_def split: sum.splits)

lemma cycle_keeps_channels:
  assumes "cycle world cfg = Inr (r, s)"
  shows "channels (config r) = channels cfg"
proof -
  from assms obtain r0 where 0: "channels_loop world (channels cfg) \<lparr>config = cfg, drift_time = 0, sent = []\<rparr> = Inr r0"
    and r: "r = r0\<lparr>config := commit (config r0)\<rparr>"
    by (auto simp: cycle_def Let_def split: sum.splits)
  from channels_loop_keeps [OF 0] r show ?thesis by (simp add: commit_def)
qed

lemma cycle_empty_registry:
  "channels cfg = [] \<Longrightarrow>
     cycle world cfg = Inr (\<lparr>config = commit cfg, drift_time = 0, sent = []\<rparr>, refresh_interval cfg)"
  by (simp add: cycle_def commit_def sleep_duration_def)

lemma notified_Inr [simp]: "notified (Inr (r, s)) = Some (sent r)"
  by (simp add: notified_def)

lemma cycle_notified_without_calls:
  "notified (cycle (without_calls world) cfg) = notified (cycle world cfg)"
  using cycle_without_calls [of world cfg]
  by (cases "cycle world cfg"; cases "cycle (without_calls world) cfg")
     (auto simp: notified_def)

lemma cycle_sound:
  assumes "cycle world cfg = Inr (r, s)" and "CardLink ch u \<in> set (sent r)"
  shows "\<exists>bs b t a. (ch, bs) \<in> set (channels cfg) \<and> b \<in> set bs \<and>
           (t, a) \<in> set (board_actions (world (ch, b))) \<and> u = card_url (shortLink a) \<and>
           t - date a \<le> prev_refresh_interval cfg"
proof -
  from assms(1) obtain r0 where
    0: "channels_loop world (channels cfg) \<lparr>config = cfg, drift_time = 0, sent = []\<rparr> = Inr r0"
    and r: "r = r0\<lparr>config := commit (config r0)\<rparr>"
    using cycle_Inr by blast
  from r assms(2) have "CardLink ch u \<in> set (sent r0)" by simp
  from channels_loop_sound [OF 0 this] obtain channel bs b where
    m: "(channel, bs) \<in> set (channels cfg)" "b \<in> set bs"
    and p: "CardLink ch u \<in> set (polled_messages world (prev_refresh_interval cfg) channel b)"
    by auto
  from p obtain t a where "ch = channel" "(t, a) \<in> set (board_actions (world (channel, b)))"
    "u = card_url (shortLink a)" "t - date a \<le> prev_refresh_interval cfg"
    unfolding CardLink_polled_messages by blast
  with m show ?thesis by blast
qed

lemma cycle_complete:
  assumes "cycle world cfg = Inr (r, s)"
    and "\<forall>channel bs b. (channel, bs) \<in> set (channels cfg) \<longrightarrow> b \<in> set bs \<longrightarrow> answers world channel b"
    and "(ch, bs) \<in> set (channels cfg)" and "b \<in> set bs"
    and "(t, a) \<in> set (board_actions (world (ch, b)))"
    and "t - date a \<le> prev_refresh_interval cfg"
  shows "CardLink ch (card_url (shortLink a)) \<in> set (sent r)"
proof -
  let ?r = "\<lparr>config = cfg, drift_time = 0, sent = []\<rparr>"
  from assms(1) obtain r0 where
    0: "channels_loop world (channels cfg) ?r = Inr r0"
    and r: "r = r0\<lparr>config := commit (config r0)\<rparr>"
    using cycle_Inr by blast
  from channels_loop_complete [OF assms(2), where r = ?r] 0
  have s: "set (sent r0) = (\<Union>(channel, bs) \<in> set (channels cfg). \<Union>b \<in> set bs.
             set (polled_messages world (prev_refresh_interval cfg) channel b))"
    by simp
  have "CardLink ch (card_url (shortLink a))
          \<in> set (polled_messages world (prev_refresh_interval cfg) ch b)"
    using assms(5,6) by (auto simp: CardLink_polled_messages)
  with assms(3,4) have "CardLink ch (card_url (shortLink a)) \<in> set (sent r0)"
    unfolding s by blast
  with r show ?thesis by simp
qed

lemma cycle_commits:
  assumes "cycle world cfg = Inr (r, s)"
  shows "prev_refresh_interval (config r) = refresh_interval (config r)"
proof -
  from assms obtain r0 where "r = r0\<lparr>config := commit (config r0)\<rparr>"
    using cycle_Inr by blast
  then show ?thesis by (simp add: commit_def)
qed

lemma reachable_registry_ok: "reachable cfg \<Longrightarrow> registry_ok (channels cfg)"
proof (induction rule: reachable.induct)
  case start
  show ?case by (simp add: initial_config_def)
next
  case (watch cfg str_lower get_board channel_id board_url)
  obtain cfg' resp where w: "watch_board str_lower get_board channel_id board_url cfg = (cfg', resp)"
    by (cases "watch_board str_lower get_board channel_id board_url cfg")
  from watch_board_cases [OF w] watch.IH have "registry_ok (channels cfg')"
    by (auto simp: registry_ok_add_board)
  with w show ?case by simp
next
  case (reset cfg)
  show ?case by (simp add: reset_bot_def)
next
  case (interval cfg minutes)
  then show ?case by (simp add: set_refresh_interval_def)
next
  case (polled cfg world r s)
  with cycle_keeps_channels [OF polled.hyps(2)] show ?case by simp
qed

subsection \<open>The configuration a cycle ends with\<close>

lemma apply_calls_append: "apply_calls (ms @ ns) cfg = apply_calls ns (apply_calls ms cfg)"
  by (simp add: apply_calls_def)

lemma apply_calls_refresh:
  "refresh_interval (apply_calls ms cfg) = (if ms = [] then refresh_interval cfg else last ms * 60)"
proof (induction ms rule: rev_induct)
  case Nil
  show ?case by simp
next
  case (snoc m ms)
  show ?case by (simp add: apply_calls_def set_refresh_interval_def)
qed

lemma check_board_Completed_config:
  assumes "check_board world channel board r = Completed r'"
  shows "config r' = apply_calls (board_calls world (prev_refresh_interval (config r)) channel board) (config r)"
  using assms
  by (auto simp: check_board_def board_calls_def Let_def apply_calls_append
      split: option.splits if_splits)

lemma check_board_Broke_config:
  assumes "check_board world channel board r = Broke r'"
  shows "config r' = apply_calls (board_calls world (prev_refresh_interval (config r)) channel board) (config r)"
  using assms
  by (auto simp: check_board_def board_calls_def Let_def split: option.splits if_splits)

lemma boards_loop_config:
  "boards_loop world channel bs r = Inr r' \<Longrightarrow>
     config r' = apply_calls (boards_calls world (prev_refresh_interval (config r)) channel bs) (config r)"
proof (induction bs arbitrary: r)
  case Nil
  then show ?case by simp
next
  case (Cons b bs)
  show ?case
  proof (cases "check_board world channel b r")
    case (Completed r1)
    with Cons.prems have loop: "boards_loop world channel bs r1 = Inr r'" by simp
    note c = check_board_Completed [OF Completed]
    from Cons.IH [OF loop] check_board_Completed_config [OF Completed] c(1,4)
    show ?thesis by (simp add: apply_calls_append)
  next
    case (Broke r1)
    with Cons.prems have "r' = r1" by simp
    with check_board_Broke_config [OF Broke] check_board_Broke(1) [OF Broke]
    show ?thesis by simp
  next
    case (Raised e)
    with Cons.prems show ?thesis by simp
  qed
qed

lemma channels_loop_config:
  "channels_loop world chs r = Inr r' \<Longrightarrow>
     config r' = apply_calls (channels_calls world (prev_refresh_interval (config r)) chs) (config r)"
proof (induction chs arbitrary: r)
  case Nil
  then show ?case by simp
next
  case (Cons p chs)
  obtain channel bs where p: "p = (channel, bs)" by (cases p)
  from Cons.prems p obtain r1 where 1: "boards_loop world channel bs r = Inr r1"
    and 2: "channels_loop world chs r1 = Inr r'"
    by (auto split: sum.splits)
  from Cons.IH [OF 2] boards_loop_config [OF 1] boards_loop_keeps [OF 1] p
  show ?case by (simp add: apply_calls_append)
qed

lemma cycle_config:
  assumes "cycle world cfg = Inr (r, s)"
  shows "config r = commit (apply_calls (handled_calls world cfg) cfg)"
proof -
  from assms obtain r0 where
    0: "channels_loop world (channels cfg) \<lparr>config = cfg, drift_time = 0, sent = []\<rparr> = Inr r0"
    and r: "r = r0\<lparr>config := commit (config r0)\<rparr>"
    using cycle_Inr by blast
  from channels_loop_config [OF 0] r show ?thesis by (simp add: handled_calls_def)
qed

lemma handled_without_calls: "handled_calls (without_calls world) cfg = []"
proof -
  have b: "\<And>prev channel bs. boards_calls (without_calls world) prev channel bs = []"
  proof -
    fix prev channel bs
    show "boards_calls (without_calls world) prev channel bs = []"
      by (induction bs) (simp_all add: board_calls_def without_calls_def)
  qed
  have "\<And>prev chs. channels_calls (without_calls world) prev chs = []"
  proof -
    fix prev chs
    show "channels_calls (without_calls world) prev chs = []"
      by (induction chs) (auto simp: b)
  qed
  then show ?thesis by (simp add: handled_calls_def)
qed

subsection \<open>One message per card\<close>

lemma count_list_distinct: "distinct xs \<Longrightarrow> count_list xs x = (if x \<in> set xs then 1 else 0)"
  by (induction xs) auto

lemma count_list_CardLink: "count_list (map (CardLink channel) cards) (CardLink channel u) = count_list cards u"
  by (induction cards) auto

lemma filter_card_links: "filter is_card_link (board_messages channel now prev cards) = map (CardLink channel) cards"
  by (induction cards) (auto simp: board_messages_def)

lemma count_polled_messages:
  "count_list (polled_messages world prev channel board) (CardLink channel (card_url link))
     = (if \<exists>t a. (t, a) \<in> set (board_actions (world (channel, board))) \<and> shortLink a = link \<and>
             t - date a \<le> prev then 1 else 0)"
proof -
  let ?cards = "collect_cards prev (board_actions (world (channel, board))) []"
  have d: "distinct ?cards" by (rule collect_cards_distinct) simp
  have "count_list (polled_messages world prev channel board) (CardLink channel (card_url link))
      = count_list ?cards (card_url link)"
    by (simp add: polled_messages_def board_messages_def count_list_CardLink)
  also have "\<dots> = (if card_url link \<in> set ?cards then 1 else 0)"
    by (rule count_list_distinct [OF d])
  also have "card_url link \<in> set ?cards \<longleftrightarrow>
      (\<exists>t a. (t, a) \<in> set (board_actions (world (channel, board))) \<and> shortLink a = link \<and>
             t - date a \<le> prev)"
    by (auto simp: collect_cards_set)
  finally show ?thesis .
qed

lemma length_card_links:
  "length (filter is_card_link (polled_messages world prev channel board))
     = card {shortLink a | t a. (t, a) \<in> set (board_actions (world (channel, board))) \<and>
          t - date a \<le> prev}"
proof -
  let ?acts = "board_actions (world (channel, board))"
  let ?cards = "collect_cards prev ?acts []"
  let ?Q = "{shortLink a | t a. (t, a) \<in> set ?acts \<and> t - date a \<le> prev}"
  have d: "distinct ?cards" by (rule collect_cards_distinct) simp
  have s: "set ?cards = card_url ` ?Q" by (auto simp: collect_cards_set)
  have "length (filter is_card_link (polled_messages world prev channel board)) = length ?cards"
    by (simp add: polled_messages_def filter_card_links)
  also have "\<dots> = card (set ?cards)" using d by (simp add: distinct_card)
  also have "\<dots> = card ?Q" unfolding s by (rule card_image) (simp add: inj_on_def)
  finally show ?thesis .
qed

subsection \<open>The concrete boards\<close>

lemma re_search_alpha: "re_search alpha_url = Some ''AAA''"
  unfolding alpha_url_def by code_simp

lemma re_search_beta: "re_search beta_url = Some ''BBB''"
  unfolding beta_url_def by code_simp

lemma re_search_zeta: "re_search zeta_url = Some ''ZZZ''"
  unfolding zeta_url_def by code_simp

lemma re_search_alpha_slash: "re_search alpha_url_slash = Some ''AAA/alpha''"
  unfolding alpha_url_slash_def by code_simp

lemma re_search_upper: "re_search alpha_url_upper = None"
  unfolding alpha_url_upper_def by code_simp

lemma re_search_card_page: "re_search card_page_url = None"
  unfolding card_page_url_def by code_simp

lemma lower_upper: "ascii_lower alpha_url_upper = ascii_lower alpha_url"
  unfolding alpha_url_upper_def alpha_url_def by code_simp

lemma lower_beta: "ascii_lower alpha_url \<noteq> ascii_lower beta_url"
  unfolding beta_url_def alpha_url_def by code_simp

lemma lower_zeta: "ascii_lower alpha_url \<noteq> ascii_lower zeta_url"
  unfolding zeta_url_def alpha_url_def by code_simp

lemma re_search_mixed: "re_search alpha_url_mixed = Some ''AAA''"
  unfolding alpha_url_mixed_def by code_simp

lemma lower_mixed: "ascii_lower alpha_url_mixed = ascii_lower alpha_url"
  unfolding alpha_url_mixed_def alpha_url_def by code_simp

lemma alpha_mixed: "alpha_url_mixed \<noteq> alpha_url"
  unfolding alpha_url_mixed_def alpha_url_def by simp

lemma alpha_beta: "alpha_url \<noteq> beta_url"
  unfolding beta_url_def alpha_url_def by simp

lemma board_a_b: "board_a \<noteq> board_b" by (simp add: board_a_def board_b_def alpha_beta)

section \<open>The claims\<close>

subsection \<open>C1: the window of a cycle\<close>

text \<open>
  Claim C1. The window that filters the activity records of a cycle is computed from
  \<^verbatim>\<open>prev_refresh_interval\<close> as it stands when the cycle starts. Every card message of
  the cycle comes from an action of a watched board whose age \<open>utcnow - date\<close> is at
  most that value, and when every board has an id and answers 200, every such action
  has its card message: a record qualifies exactly when it lies within the previous
  interval of the current time. The messages are those of the same cycle with no
  \<^verbatim>\<open>set_refresh_interval\<close> call arriving in its middle, since such a call changes
  \<^verbatim>\<open>refresh_interval\<close> only. The cycle ends with the configuration it started
  with, changed by the calls it handled in their order and then committed
  (\<open>prev_refresh_interval := refresh_interval\<close>): the previous interval is then the
  value the last of these calls requested, or the current interval of the start when
  no call arrived, and the next cycle uses it.
\<close>

theorem window_is_previous_interval:
  assumes "cycle world cfg = Inr (r, s)"
  shows "(\<forall>ch u. CardLink ch u \<in> set (sent r) \<longrightarrow>
            (\<exists>bs b t a. (ch, bs) \<in> set (channels cfg) \<and> b \<in> set bs \<and>
               (t, a) \<in> set (board_actions (world (ch, b))) \<and> u = card_url (shortLink a) \<and>
               t - date a \<le> prev_refresh_interval cfg))
    \<and> ((\<forall>ch bs b. (ch, bs) \<in> set (channels cfg) \<longrightarrow> b \<in> set bs \<longrightarrow> answers world ch b) \<longrightarrow>
          (\<forall>ch bs b t a. (ch, bs) \<in> set (channels cfg) \<and> b \<in> set bs \<and>
               (t, a) \<in> set (board_actions (world (ch, b))) \<and>
               t - date a \<le> prev_refresh_interval cfg
             \<longrightarrow> CardLink ch (card_url (shortLink a)) \<in> set (sent r)))
    \<and> notified (cycle (without_calls world) cfg) = Some (sent r)
    \<and> config r = commit (apply_calls (handled_calls world cfg) cfg)
    \<and> prev_refresh_interval (config r)
          = (if handled_calls world cfg = [] then refresh_interval cfg
             else last (handled_calls world cfg) * 60)
    \<and> prev_refresh_interval (config r) = refresh_interval (config r)
    \<and> (\<forall>minutes c. prev_refresh_interval (fst (set_refresh_interval minutes c))
                        = prev_refresh_interval c
                     \<and> channels (fst (set_refresh_interval minutes c)) = channels c
                     \<and> refresh_interval (fst (set_refresh_interval minutes c)) = minutes * 60)"
proof -
  have 1: "\<forall>ch u. CardLink ch u \<in> set (sent r) \<longrightarrow>
            (\<exists>bs b t a. (ch, bs) \<in> set (channels cfg) \<and> b \<in> set bs \<and>
               (t, a) \<in> set (board_actions (world (ch, b))) \<and> u = card_url (shortLink a) \<and>
               t - date a \<le> prev_refresh_interval cfg)"
    using cycle_sound [OF assms] by blast
  have 2: "(\<forall>ch bs b. (ch, bs) \<in> set (channels cfg) \<longrightarrow> b \<in> set bs \<longrightarrow> answers world ch b) \<longrightarrow>
          (\<forall>ch bs b t a. (ch, bs) \<in> set (channels cfg) \<and> b \<in> set bs \<and>
               (t, a) \<in> set (board_actions (world (ch, b))) \<and>
               t - date a \<le> prev_refresh_interval cfg
             \<longrightarrow> CardLink ch (card_url (shortLink a)) \<in> set (sent r))"
    using cycle_complete [OF assms] by blast
  have 3: "notified (cycle (without_calls world) cfg) = Some (sent r)"
    using cycle_notified_without_calls [of world cfg] assms by simp
  have 4: "prev_refresh_interval (config r) = refresh_interval (config r)"
    by (rule cycle_commits [OF assms])
  have 6: "config r = commit (apply_calls (handled_calls world cfg) cfg)"
    by (rule cycle_config [OF assms])
  have 7: "prev_refresh_interval (config r)
          = (if handled_calls world cfg = [] then refresh_interval cfg
             else last (handled_calls world cfg) * 60)"
    unfolding 6 by (simp add: commit_def apply_calls_refresh)
  have 5: "\<forall>minutes c. prev_refresh_interval (fst (set_refresh_interval minutes c))
                        = prev_refresh_interval c
                     \<and> channels (fst (set_refresh_interval minutes c)) = channels c
                     \<and> refresh_interval (fst (set_refresh_interval minutes c)) = minutes * 60"
    by (simp add: set_refresh_interval_def)
  from 1 2 3 4 5 6 7 show ?thesis by blast
qed

text \<open>
  At a concrete cycle: the interval is set to 5 seconds while the request of the only
  board is awaited; the card touched 10 seconds ago is still reported, the one call
  handled is that request, the commit leaves its 5 seconds in both fields, and the
  following cycle no longer reports the card.
\<close>

theorem window_is_previous_interval_witness:
  "cycle hurried_world one_board
     = Inr (\<lparr>config = five_seconds, drift_time = 2,
              sent = [Header 1 1400, CardLink 1 (card_url ''c1'')]\<rparr>, 3)
   \<and> answers hurried_world 1 board_a
   \<and> (5000, \<lparr>date = 4990, shortLink = ''c1''\<rparr>) \<in> set (board_actions (hurried_world (1, board_a)))
   \<and> (5000 - 4990 :: real) \<le> prev_refresh_interval one_board
   \<and> \<not> (5000 - 4990 :: real) \<le> 5
   \<and> CardLink 1 (card_url ''c1'') \<in> set [Header 1 1400, CardLink 1 (card_url ''c1'')]
   \<and> notified (cycle (without_calls hurried_world) one_board)
        = Some [Header 1 1400, CardLink 1 (card_url ''c1'')]
   \<and> handled_calls hurried_world one_board = [1 / 12]
   \<and> prev_refresh_interval five_seconds = last [1 / 12] * 60
   \<and> five_seconds = commit (apply_calls [1 / 12] one_board)
   \<and> prev_refresh_interval five_seconds = refresh_interval five_seconds
   \<and> notified (cycle steady_world five_seconds) = Some []"
proof -
  let ?r = "\<lparr>config = five_seconds, drift_time = 2,
              sent = [Header 1 1400, CardLink 1 (card_url ''c1'')]\<rparr>"
  have c: "cycle hurried_world one_board = Inr (?r, 3)"
    by (simp add: cycle_def one_board_def hurried_world_def check_board_def board_a_def
        re_search_alpha two_updates_def board_messages_def commit_def five_seconds_def
        apply_calls_def set_refresh_interval_def sleep_duration_def)
  have a: "\<forall>ch bs b. (ch, bs) \<in> set (channels one_board) \<longrightarrow> b \<in> set bs \<longrightarrow>
      answers hurried_world ch b"
    by (simp add: one_board_def answers_def board_a_def re_search_alpha hurried_world_def
        two_updates_def)
  have m: "(1, [board_a]) \<in> set (channels one_board) \<and> board_a \<in> set [board_a] \<and>
      (5000, \<lparr>date = 4990, shortLink = ''c1''\<rparr>) \<in> set (board_actions (hurried_world (1, board_a)))
      \<and> 5000 - date \<lparr>date = 4990, shortLink = ''c1''\<rparr> \<le> prev_refresh_interval one_board"
    by (simp add: one_board_def hurried_world_def two_updates_def)
  note w = window_is_previous_interval [OF c]
  from w a m have "CardLink 1 (card_url (shortLink \<lparr>date = 4990, shortLink = ''c1''\<rparr>)) \<in> set (sent ?r)"
    by blast
  moreover from w have "notified (cycle (without_calls hurried_world) one_board) = Some (sent ?r)"
    by blast
  moreover from w have "prev_refresh_interval (config ?r) = refresh_interval (config ?r)"
    by blast
  moreover have h: "handled_calls hurried_world one_board = [1 / 12]"
    by (simp add: handled_calls_def one_board_def board_calls_def hurried_world_def
        two_updates_def)
  moreover from w h have "prev_refresh_interval (config ?r) = last [1 / 12] * 60"
    by simp
  moreover from w h have "config ?r = commit (apply_calls [1 / 12] one_board)"
    by simp
  moreover have "notified (cycle steady_world five_seconds) = Some []"
    by (simp add: cycle_def five_seconds_def steady_world_def check_board_def board_a_def
        re_search_alpha two_updates_def board_messages_def notified_def)
  moreover have "answers hurried_world 1 board_a"
    using a by (simp add: one_board_def)
  ultimately show ?thesis using c m by simp
qed

subsection \<open>C2: a failed activity query\<close>

text \<open>
  Claim C2 says that a status other than 200 skips that single board, the remaining
  boards of the channel being checked as usual. The \<^verbatim>\<open>break\<close> leaves the loop over the
  channel's boards instead: with \<open>board_a\<close> answering 500, \<open>board_b\<close> of the same channel,
  which answers 200 and would report a card, is not checked and the cycle sends
  nothing.
\<close>

theorem failed_board_ends_channel:
  "status (outage_world (1, board_a)) = 500
   \<and> answers outage_world 1 board_b
   \<and> polled_messages outage_world 3600 1 board_b = [Header 1 1400, CardLink 1 (card_url ''c1'')]
   \<and> notified (cycle outage_world two_boards) = Some []"
proof -
  have a: "outage_world (1, board_a) = two_updates\<lparr>status := 500\<rparr>"
    and b: "outage_world (1, board_b) = two_updates"
    using board_a_b by (auto simp: outage_world_def)
  have ua: "re_search (snd board_a) = Some ''AAA''" and ub: "re_search (snd board_b) = Some ''BBB''"
    by (simp_all add: board_a_def board_b_def re_search_alpha re_search_beta)
  have "check_board outage_world 1 board_a \<lparr>config = two_boards, drift_time = 0, sent = []\<rparr>
          = Broke \<lparr>config = two_boards, drift_time = 0, sent = []\<rparr>"
    by (simp add: check_board_def a ua two_updates_def)
  then have "notified (cycle outage_world two_boards) = Some []"
    by (simp add: cycle_def two_boards_def notified_def)
  moreover have "polled_messages outage_world 3600 1 board_b
      = [Header 1 1400, CardLink 1 (card_url ''c1'')]"
    by (simp add: polled_messages_def b two_updates_def board_messages_def)
  ultimately show ?thesis by (simp add: a b ub answers_def two_updates_def)
qed

subsection \<open>C3: the drift\<close>

text \<open>
  Claim C3 says that the drift at the end of a cycle is the number of messages the
  cycle sent. \<^verbatim>\<open>drift_time\<close> is assigned, not added to, for every board with cards:
  two boards with one card each send four messages and leave a drift of 2.
\<close>

theorem drift_overwritten_per_board:
  "notified (cycle steady_world two_boards)
     = Some [Header 1 1400, CardLink 1 (card_url ''c1''), Header 1 1400, CardLink 1 (card_url ''c1'')]
   \<and> drifted (cycle steady_world two_boards) = Some 2
   \<and> slept (cycle steady_world two_boards) = Some 3598"
  by (simp add: cycle_def two_boards_def steady_world_def check_board_def board_a_def board_b_def
      re_search_alpha re_search_beta two_updates_def board_messages_def commit_def
      sleep_duration_def notified_def drifted_def slept_def)

subsection \<open>C4: the sleep\<close>

text \<open>
  Claim C4, amended. At the end of a cycle the number handed to \<^verbatim>\<open>asyncio.sleep\<close> is
  \<^verbatim>\<open>refresh_interval - drift_time\<close>, with no clamp: it is
  \<open>max (refresh_interval - drift_time) 0\<close> when the drift is at most the interval, and it
  is negative when the drift exceeds the interval.
\<close>

theorem sleep_is_interval_minus_drift:
  assumes "cycle world cfg = Inr (r, s)"
  shows "s = refresh_interval (config r) - real_of_int (drift_time r)
       \<and> (real_of_int (drift_time r) \<le> refresh_interval (config r)
            \<longrightarrow> s = max (refresh_interval (config r) - real_of_int (drift_time r)) 0)
       \<and> (refresh_interval (config r) < real_of_int (drift_time r) \<longrightarrow> s < 0)"
proof -
  from assms obtain r0 where "r = r0\<lparr>config := commit (config r0)\<rparr>"
    and "s = refresh_interval (config r0) - real_of_int (drift_time r0)"
    using cycle_Inr by blast
  then show ?thesis by (simp add: commit_def)
qed

text \<open>
  At concrete cycles: two boards with one card each, an interval of 3600 seconds and
  a drift of 2 give a sleep of 3598 seconds; one board with a card, an interval of one
  second and a drift of 2 give a sleep of \<open>- 1\<close>.
\<close>

theorem sleep_is_interval_minus_drift_witness:
  "cycle steady_world two_boards
     = Inr (\<lparr>config = two_boards, drift_time = 2,
              sent = [Header 1 1400, CardLink 1 (card_url ''c1''),
                      Header 1 1400, CardLink 1 (card_url ''c1'')]\<rparr>, 3598)
   \<and> real_of_int 2 \<le> refresh_interval two_boards
   \<and> (3598 :: real) = max (refresh_interval two_boards - real_of_int 2) 0
   \<and> cycle steady_world (fst (set_refresh_interval (1 / 60) one_board))
     = Inr (\<lparr>config = one_second, drift_time = 2,
              sent = [Header 1 1400, CardLink 1 (card_url ''c1'')]\<rparr>, - 1)
   \<and> refresh_interval one_second < real_of_int 2
   \<and> (- 1 :: real) < 0"
proof -
  let ?r = "\<lparr>config = two_boards, drift_time = 2,
              sent = [Header 1 1400, CardLink 1 (card_url ''c1''),
                      Header 1 1400, CardLink 1 (card_url ''c1'')]\<rparr>"
  let ?q = "\<lparr>config = one_second, drift_time = 2,
              sent = [Header 1 1400, CardLink 1 (card_url ''c1'')]\<rparr>"
  have c: "cycle steady_world two_boards = Inr (?r, 3598)"
    by (simp add: cycle_def two_boards_def steady_world_def check_board_def board_a_def board_b_def
      re_search_alpha re_search_beta two_updates_def board_messages_def commit_def
      sleep_duration_def)
  have h: "real_of_int (drift_time ?r) \<le> refresh_interval (config ?r)"
    by (simp add: two_boards_def)
  from sleep_is_interval_minus_drift [OF c] h
  have 1: "(3598 :: real) = max (refresh_interval (config ?r) - real_of_int (drift_time ?r)) 0"
    by blast
  obtain s where d: "cycle steady_world (fst (set_refresh_interval (1 / 60) one_board)) = Inr (?q, s)"
    by (simp add: cycle_def one_board_def steady_world_def check_board_def board_a_def
      re_search_alpha two_updates_def board_messages_def commit_def set_refresh_interval_def
      sleep_duration_def one_second_def)
  have k: "refresh_interval (config ?q) < real_of_int (drift_time ?q)"
    by (simp add: one_second_def)
  from sleep_is_interval_minus_drift [OF d] k
  have 2: "s = - 1 \<and> s < 0" by (simp add: one_second_def)
  from 1 2 c d h k show ?thesis by simp
qed

text \<open>
  The claim as stated fails: after \<^verbatim>\<open>set_refresh_interval\<close> with 1/60 of a minute the
  interval is one second, a cycle that sends a header and a card has a drift of 2, and
  the computed sleep is \<open>- 1\<close>, not 0.
\<close>

theorem sleep_counterexample:
  "drifted (cycle steady_world (fst (set_refresh_interval (1 / 60) one_board))) = Some 2
   \<and> refresh_interval (fst (set_refresh_interval (1 / 60) one_board)) = 1
   \<and> slept (cycle steady_world (fst (set_refresh_interval (1 / 60) one_board))) = Some (- 1)
   \<and> slept (cycle steady_world (fst (set_refresh_interval (1 / 60) one_board)))
        \<noteq> Some (max (1 - 2) 0)"
  by (simp add: cycle_def one_board_def steady_world_def check_board_def board_a_def
      re_search_alpha two_updates_def board_messages_def commit_def set_refresh_interval_def
      sleep_duration_def drifted_def slept_def)

subsection \<open>C5: \<^verbatim>\<open>reset_bot\<close>\<close>

text \<open>
  Claim C5 says that after \<^verbatim>\<open>reset_bot\<close> the registry is empty and both interval
  fields hold 3600 seconds, the state its docstring calls the initial state.
  \<^verbatim>\<open>reset_bot\<close> assigns \<^verbatim>\<open>refresh_interval\<close> and \<^verbatim>\<open>channels\<close> and leaves
  \<^verbatim>\<open>prev_refresh_interval\<close> alone: after \<^verbatim>\<open>set_refresh_interval\<close> with one minute and one
  cycle, both fields hold 60 seconds, and \<^verbatim>\<open>reset_bot\<close> then empties the registry and
  sets the current interval to 3600 seconds, but the previous interval stays at 60
  seconds, so the result is not the initial configuration.
\<close>

theorem reset_bot_keeps_previous_interval:
  "cycle idle_world (fst (set_refresh_interval 1 initial_config))
     = Inr (\<lparr>config = one_minute, drift_time = 0, sent = []\<rparr>, 60)
   \<and> reachable one_minute
   \<and> channels (fst (reset_bot one_minute)) = []
   \<and> refresh_interval (fst (reset_bot one_minute)) = 3600
   \<and> prev_refresh_interval (fst (reset_bot one_minute)) = 60
   \<and> prev_refresh_interval initial_config = 3600
   \<and> fst (reset_bot one_minute) \<noteq> initial_config"
proof -
  have c: "cycle idle_world (fst (set_refresh_interval 1 initial_config))
     = Inr (\<lparr>config = one_minute, drift_time = 0, sent = []\<rparr>, 60)"
    by (simp add: cycle_empty_registry set_refresh_interval_def initial_config_def commit_def
        one_minute_def)
  have "reachable (fst (set_refresh_interval 1 initial_config))"
    by (rule reachable.interval) (rule reachable.start)
  from reachable.polled [OF this c] have "reachable one_minute" by simp
  with c show ?thesis by (simp add: reset_bot_def one_minute_def initial_config_def)
qed

subsection \<open>C6: a board that is already watched\<close>

text \<open>
  Claim C6, amended. When the URL has a board id and some board of the registry, in
  any channel, has the same URL up to case, that is, the same image under
  \<^verbatim>\<open>str.lower\<close>, whatever that function does, \<^verbatim>\<open>watch_board\<close> leaves the configuration
  as it is and responds that the board is already watched, naming a channel of the
  registry that holds such a board.
\<close>

theorem watch_board_rejects_duplicates:
  assumes "re_search board_url = Some board_id"
    and "(ch, list_of_boards) \<in> set (channels cfg)"
    and "b \<in> set list_of_boards"
    and "str_lower (snd b) = str_lower board_url"
  shows "\<exists>ch' list_of_boards' b'.
           watch_board str_lower get_board channel_id board_url cfg = (cfg, AlreadyWatched ch') \<and>
           (ch', list_of_boards') \<in> set (channels cfg) \<and> b' \<in> set list_of_boards' \<and>
           str_lower (snd b') = str_lower board_url"
proof -
  from watching_channel_found [OF assms(2,3,4)] obtain ch' where
    w: "watching_channel str_lower (channels cfg) board_url = Some ch'" by blast
  from watching_channel_Some [OF w] obtain bs' b' where
    "(ch', bs') \<in> set (channels cfg)" "b' \<in> set bs'" "str_lower (snd b') = str_lower board_url"
    by blast
  moreover from w assms(1)
  have "watch_board str_lower get_board channel_id board_url cfg = (cfg, AlreadyWatched ch')"
    by (simp add: watch_board_def)
  ultimately show ?thesis by blast
qed

text \<open>
  At a concrete registry: \<open>board_a\<close> is watched in channel 1 and is asked for again from
  channel 2, under a URL that differs from the watched one in the case of its letters.
\<close>

theorem watch_board_rejects_duplicates_witness:
  "re_search alpha_url_mixed = Some ''AAA'' \<and> (1, [board_a]) \<in> set (channels one_board)
   \<and> board_a \<in> set [board_a] \<and> alpha_url_mixed \<noteq> snd board_a
   \<and> ascii_lower (snd board_a) = ascii_lower alpha_url_mixed
   \<and> watch_board ascii_lower trello_lookup 2 alpha_url_mixed one_board
        = (one_board, AlreadyWatched 1)"
proof -
  have 1: "(1, [board_a]) \<in> set (channels one_board)" by (simp add: one_board_def)
  have 2: "board_a \<in> set [board_a]" by simp
  have 3: "ascii_lower (snd board_a) = ascii_lower alpha_url_mixed"
    by (simp add: board_a_def lower_mixed)
  have 4: "alpha_url_mixed \<noteq> snd board_a" by (simp add: board_a_def alpha_mixed)
  from watch_board_rejects_duplicates [OF re_search_mixed 1 2 3, of trello_lookup 2]
  obtain ch' bs' where
    "watch_board ascii_lower trello_lookup 2 alpha_url_mixed one_board = (one_board, AlreadyWatched ch')"
    and "(ch', bs') \<in> set (channels one_board)" by blast
  then have "watch_board ascii_lower trello_lookup 2 alpha_url_mixed one_board
      = (one_board, AlreadyWatched 1)"
    by (simp add: one_board_def)
  with 1 2 3 4 re_search_mixed show ?thesis by simp
qed

text \<open>
  The claim as stated fails: the URL of \<open>board_a\<close> in capitals equals the watched one up
  to case, but the pattern, which is matched before the registry is searched, does not
  find the lower-case \<^verbatim>\<open>b/\<close> in it; the response is the validation failure and names
  no channel.
\<close>

theorem watch_board_duplicate_counterexample:
  "watching_channel ascii_lower (channels one_board) alpha_url_upper = Some 1
   \<and> ascii_lower (snd board_a) = ascii_lower alpha_url_upper
   \<and> watch_board ascii_lower trello_lookup 2 alpha_url_upper one_board = (one_board, IncorrectBoardURL)
   \<and> snd (watch_board ascii_lower trello_lookup 2 alpha_url_upper one_board) \<noteq> AlreadyWatched 1"
  by (simp add: watch_board_def re_search_upper one_board_def board_a_def lower_upper)

subsection \<open>C7: the board id\<close>

text \<open>
  Claim C7 says that the board id is the single path segment after \<^verbatim>\<open>b/\<close>, up to the
  next \<^verbatim>\<open>/\<close>. The group of the pattern is greedy and runs to the last \<^verbatim>\<open>/\<close>: for the
  URL of \<open>board_a\<close> with a trailing \<^verbatim>\<open>/\<close> the id is \<open>AAA/alpha\<close>, the lookup of that id
  fails, and the board, which is added under its URL without the trailing \<^verbatim>\<open>/\<close>, is
  not added.
\<close>

theorem board_id_runs_to_last_slash:
  "re_search alpha_url_slash = Some ''AAA/alpha''
   \<and> re_search alpha_url_slash \<noteq> Some ''AAA''
   \<and> watch_board ascii_lower trello_lookup 1 alpha_url_slash initial_config
        = (initial_config, LookupFailed ''404, message=Not Found'')
   \<and> watch_board ascii_lower trello_lookup 1 alpha_url initial_config = (one_board, Added ''Alpha'' alpha_url)"
  by (simp add: watch_board_def re_search_alpha_slash re_search_alpha initial_config_def
      trello_lookup_def add_board_def one_board_def board_a_def)

subsection \<open>C8: one message per card\<close>

text \<open>
  Claim C8. When the check of a board completes, the messages it appends are those of
  \<open>polled_messages\<close>; among them the message of a card occurs exactly once when some
  action on that card lies in the window and not at all otherwise, however many
  actions the card has, and the number of card messages is the number of distinct
  cards with an action in the window.
\<close>

theorem one_notification_per_card:
  assumes "check_board world channel board r = Completed r'"
  shows "sent r' = sent r @ polled_messages world (prev_refresh_interval (config r)) channel board
    \<and> (\<forall>link. count_list (polled_messages world (prev_refresh_interval (config r)) channel board)
                  (CardLink channel (card_url link))
          = (if \<exists>t a. (t, a) \<in> set (board_actions (world (channel, board))) \<and>
                  shortLink a = link \<and> t - date a \<le> prev_refresh_interval (config r)
             then 1 else 0))
    \<and> length (filter is_card_link
                 (polled_messages world (prev_refresh_interval (config r)) channel board))
        = card {shortLink a | t a. (t, a) \<in> set (board_actions (world (channel, board))) \<and>
                  t - date a \<le> prev_refresh_interval (config r)}"
proof -
  from check_board_Completed(3) [OF assms]
  have "sent r' = sent r @ polled_messages world (prev_refresh_interval (config r)) channel board"
    by (simp add: polled_messages_def)
  then show ?thesis by (simp add: count_polled_messages length_card_links)
qed

text \<open>
  At a concrete board: two actions on the card \<open>c1\<close>, both in the window, give one card
  message.
\<close>

theorem one_notification_per_card_witness:
  "check_board steady_world 1 board_a \<lparr>config = one_board, drift_time = 0, sent = []\<rparr>
     = Completed \<lparr>config = one_board, drift_time = 2,
         sent = [Header 1 1400, CardLink 1 (card_url ''c1'')]\<rparr>
   \<and> (5000, \<lparr>date = 4990, shortLink = ''c1''\<rparr>) \<in> set (board_actions (steady_world (1, board_a)))
   \<and> (5000, \<lparr>date = 4980, shortLink = ''c1''\<rparr>) \<in> set (board_actions (steady_world (1, board_a)))
   \<and> count_list (polled_messages steady_world 3600 1 board_a) (CardLink 1 (card_url ''c1'')) = 1
   \<and> length (filter is_card_link (polled_messages steady_world 3600 1 board_a)) = 1"
proof -
  let ?r = "\<lparr>config = one_board, drift_time = 0, sent = []\<rparr>"
  let ?r' = "\<lparr>config = one_board, drift_time = 2, sent = [Header 1 1400, CardLink 1 (card_url ''c1'')]\<rparr>"
  have c: "check_board steady_world 1 board_a ?r = Completed ?r'"
    by (simp add: check_board_def board_a_def re_search_alpha steady_world_def two_updates_def
        one_board_def board_messages_def)
  have p: "prev_refresh_interval (config ?r) = 3600" by (simp add: one_board_def)
  have m1: "(5000, \<lparr>date = 4990, shortLink = ''c1''\<rparr>) \<in> set (board_actions (steady_world (1, board_a)))"
    and m2: "(5000, \<lparr>date = 4980, shortLink = ''c1''\<rparr>) \<in> set (board_actions (steady_world (1, board_a)))"
    by (simp_all add: steady_world_def two_updates_def)
  have q: "\<exists>t a. (t, a) \<in> set (board_actions (steady_world (1, board_a))) \<and>
      shortLink a = ''c1'' \<and> t - date a \<le> 3600"
    using m1 by force
  have s: "polled_messages steady_world 3600 1 board_a = [Header 1 1400, CardLink 1 (card_url ''c1'')]"
    using one_notification_per_card [OF c] p by simp
  then have "length (filter is_card_link (polled_messages steady_world 3600 1 board_a)) = 1"
    by simp
  moreover from one_notification_per_card [OF c] p q
  have "count_list (polled_messages steady_world 3600 1 board_a) (CardLink 1 (card_url ''c1'')) = 1"
    by simp
  ultimately show ?thesis using c m1 m2 by simp
qed

subsection \<open>C9: the failure paths of \<^verbatim>\<open>watch_board\<close>\<close>

text \<open>
  Claim C9. \<^verbatim>\<open>watch_board\<close> leaves the configuration as it is on a URL without a
  board id, on a board that is already watched, and on a failed lookup, whose error
  text is the response; the configuration changes only when the URL has an id, no
  channel watches the board and the lookup returns the board, and then by adding that
  board to the calling channel.
\<close>

theorem watch_board_failures_keep_config:
  assumes "watch_board str_lower get_board channel_id board_url cfg = (cfg', resp)"
  shows "(re_search board_url = None \<longrightarrow> cfg' = cfg \<and> resp = IncorrectBoardURL)
       \<and> (\<forall>board_id ch. re_search board_url = Some board_id \<and>
             watching_channel str_lower (channels cfg) board_url = Some ch
             \<longrightarrow> cfg' = cfg \<and> resp = AlreadyWatched ch)
       \<and> (\<forall>board_id e. re_search board_url = Some board_id \<and>
             watching_channel str_lower (channels cfg) board_url = None \<and>
             get_board board_id = ClientResponseError e
             \<longrightarrow> cfg' = cfg \<and> resp = LookupFailed e)
       \<and> (cfg' \<noteq> cfg \<longrightarrow> (\<exists>board_id name. re_search board_url = Some board_id \<and>
             watching_channel str_lower (channels cfg) board_url = None \<and>
             get_board board_id = BoardInfo name \<and> resp = Added name board_url \<and>
             cfg' = cfg\<lparr>channels := add_board channel_id (name, board_url) (channels cfg)\<rparr>))"
  using watch_board_cases [OF assms] by auto

text \<open>
  At concrete inputs: the URL of a card, a board watched in another channel, a board
  Trello does not know, and a board that is added.
\<close>

theorem watch_board_failures_keep_config_witness:
  "watch_board ascii_lower trello_lookup 1 card_page_url one_board = (one_board, IncorrectBoardURL)
   \<and> watch_board ascii_lower trello_lookup 2 alpha_url one_board = (one_board, AlreadyWatched 1)
   \<and> watch_board ascii_lower trello_lookup 2 zeta_url one_board
        = (one_board, LookupFailed ''404, message=Not Found'')
   \<and> watch_board ascii_lower trello_lookup 1 alpha_url initial_config = (one_board, Added ''Alpha'' alpha_url)
   \<and> one_board \<noteq> initial_config"
proof -
  obtain c1 r1 where 1: "watch_board ascii_lower trello_lookup 1 card_page_url one_board = (c1, r1)"
    by (cases "watch_board ascii_lower trello_lookup 1 card_page_url one_board")
  obtain c2 r2 where 2: "watch_board ascii_lower trello_lookup 2 alpha_url one_board = (c2, r2)"
    by (cases "watch_board ascii_lower trello_lookup 2 alpha_url one_board")
  obtain c3 r3 where 3: "watch_board ascii_lower trello_lookup 2 zeta_url one_board = (c3, r3)"
    by (cases "watch_board ascii_lower trello_lookup 2 zeta_url one_board")
  have w: "watching_channel ascii_lower (channels one_board) alpha_url = Some 1"
    by (simp add: one_board_def board_a_def)
  have z: "watching_channel ascii_lower (channels one_board) zeta_url = None"
    by (simp add: one_board_def board_a_def lower_zeta)
  have l: "trello_lookup ''ZZZ'' = ClientResponseError ''404, message=Not Found''"
    by (simp add: trello_lookup_def)
  have 4: "watch_board ascii_lower trello_lookup 1 alpha_url initial_config = (one_board, Added ''Alpha'' alpha_url)"
    by (simp add: watch_board_def re_search_alpha initial_config_def trello_lookup_def
        add_board_def one_board_def board_a_def)
  have 5: "one_board \<noteq> initial_config"
    by (simp add: one_board_def initial_config_def)
  from watch_board_failures_keep_config [OF 1] re_search_card_page
  have "c1 = one_board \<and> r1 = IncorrectBoardURL" by simp
  moreover from watch_board_failures_keep_config [OF 2] re_search_alpha w
  have "c2 = one_board \<and> r2 = AlreadyWatched 1" by simp
  moreover from watch_board_failures_keep_config [OF 3] re_search_zeta z l
  have "c3 = one_board \<and> r3 = LookupFailed ''404, message=Not Found''" by simp
  moreover from watch_board_failures_keep_config [OF 4] 5
  have "\<exists>board_id name. re_search alpha_url = Some board_id \<and> trello_lookup board_id = BoardInfo name"
    by blast
  ultimately show ?thesis using 1 2 3 4 5 by simp
qed

subsection \<open>C10: the registry invariant\<close>

text \<open>
  Claim C10. No operation leaves a channel mapped to an empty set: \<^verbatim>\<open>watch_board\<close>
  keeps the invariant, and when it adds a board to a channel that is absent the new
  entry holds exactly that board; \<^verbatim>\<open>reset_bot\<close> empties the whole mapping;
  \<^verbatim>\<open>set_refresh_interval\<close> and a cycle leave the registry as it is. Hence no
  configuration reachable from the initial one maps a channel to an empty set.
\<close>

theorem registry_never_holds_empty_set:
  "(registry_ok (channels cfg) \<longrightarrow>
      registry_ok (channels (fst (watch_board str_lower get_board channel_id board_url cfg))))
   \<and> (map_of (channels cfg) channel_id = None \<and>
        fst (watch_board str_lower get_board channel_id board_url cfg) \<noteq> cfg \<longrightarrow>
        (\<exists>name. map_of (channels (fst (watch_board str_lower get_board channel_id board_url cfg))) channel_id
           = Some [(name, board_url)]))
   \<and> channels (fst (reset_bot cfg)) = []
   \<and> registry_ok (channels (fst (reset_bot cfg)))
   \<and> channels (fst (set_refresh_interval minutes cfg)) = channels cfg
   \<and> (\<forall>r s. cycle world cfg = Inr (r, s) \<longrightarrow> channels (config r) = channels cfg)
   \<and> (reachable cfg \<longrightarrow> registry_ok (channels cfg) \<and>
        (\<forall>channel list_of_boards. (channel, list_of_boards) \<in> set (channels cfg)
           \<longrightarrow> list_of_boards \<noteq> []))"
proof -
  obtain cfg' resp where w: "watch_board str_lower get_board channel_id board_url cfg = (cfg', resp)"
    by (cases "watch_board str_lower get_board channel_id board_url cfg")
  have 1: "registry_ok (channels cfg) \<longrightarrow> registry_ok (channels cfg')"
    using watch_board_cases [OF w] by (auto simp: registry_ok_add_board)
  have 2: "map_of (channels cfg) channel_id = None \<and> cfg' \<noteq> cfg \<longrightarrow>
        (\<exists>name. map_of (channels cfg') channel_id = Some [(name, board_url)])"
    using watch_board_cases [OF w] by (auto simp: add_board_def AList.update_conv')
  have 3: "reachable cfg \<longrightarrow> registry_ok (channels cfg) \<and>
        (\<forall>channel list_of_boards. (channel, list_of_boards) \<in> set (channels cfg)
           \<longrightarrow> list_of_boards \<noteq> [])"
    using reachable_registry_ok [of cfg] registry_ok_iff [of "channels cfg"] by blast
  from 1 2 3 w show ?thesis
    by (simp add: reset_bot_def set_refresh_interval_def cycle_keeps_channels)
qed

text \<open>
  At a concrete configuration: \<open>board_a\<close> added to the initial configuration.
\<close>

theorem registry_never_holds_empty_set_witness:
  "reachable one_board \<and> registry_ok (channels one_board)
   \<and> registry_ok (channels (fst (watch_board ascii_lower trello_lookup 1 beta_url one_board)))
   \<and> map_of (channels initial_config) 1 = None
   \<and> fst (watch_board ascii_lower trello_lookup 1 alpha_url initial_config) \<noteq> initial_config
   \<and> map_of (channels (fst (watch_board ascii_lower trello_lookup 1 alpha_url initial_config))) 1
        = Some [(''Alpha'', alpha_url)]"
proof -
  have w: "watch_board ascii_lower trello_lookup 1 alpha_url initial_config = (one_board, Added ''Alpha'' alpha_url)"
    by (simp add: watch_board_def re_search_alpha initial_config_def trello_lookup_def
        add_board_def one_board_def board_a_def)
  have "reachable (fst (watch_board ascii_lower trello_lookup 1 alpha_url initial_config))"
    by (rule reachable.watch) (rule reachable.start)
  with w have r: "reachable one_board" by simp
  have n: "map_of (channels initial_config) 1 = None" by (simp add: initial_config_def)
  have d: "fst (watch_board ascii_lower trello_lookup 1 alpha_url initial_config) \<noteq> initial_config"
    using w by (simp add: one_board_def initial_config_def)
  from registry_never_holds_empty_set [of one_board ascii_lower trello_lookup 1 beta_url] r
  have "registry_ok (channels one_board)
      \<and> registry_ok (channels (fst (watch_board ascii_lower trello_lookup 1 beta_url one_board)))"
    by blast
  moreover from registry_never_holds_empty_set [of initial_config ascii_lower trello_lookup 1 alpha_url] n d
  have "\<exists>name. map_of (channels (fst (watch_board ascii_lower trello_lookup 1 alpha_url initial_config))) 1
        = Some [(name, alpha_url)]"
    by blast
  ultimately show ?thesis using r n d w by (simp add: one_board_def board_a_def)
qed

end
